theory Spec2Isabelle
  imports Main
begin

section \<open>Text\<close>

text \<open>
  A Python \<open>str\<close> is a sequence of Unicode code points. A code point is modelled by its
  number, a string by the list of its code points. File contents are text as well: the
  program opens every file with \<open>encoding='utf-8'\<close>, and the model holds what the codec
  decodes to and encodes from.
\<close>

type_synonym codepoint = nat
type_synonym ustring = "codepoint list"

definition ascii :: "string \<Rightarrow> ustring" where
  "ascii s = map of_char s"

subsection \<open>Whitespace: \<open>str.strip()\<close> and \<open>str.split()\<close>\<close>

text \<open>
  \<open>str.strip()\<close> and \<open>str.split()\<close> without arguments use \<open>str.isspace\<close> on each
  character: the ASCII characters 9 to 13 and 28 to 32, and the Unicode spaces listed.
\<close>

definition isspace :: "codepoint \<Rightarrow> bool" where
  "isspace c \<longleftrightarrow>
     (9 \<le> c \<and> c \<le> 13) \<or> (28 \<le> c \<and> c \<le> 32) \<or> c = 0x85 \<or> c = 0xA0 \<or> c = 0x1680 \<or>
     (0x2000 \<le> c \<and> c \<le> 0x200A) \<or> c = 0x2028 \<or> c = 0x2029 \<or> c = 0x202F \<or>
     c = 0x205F \<or> c = 0x3000"

definition strip :: "ustring \<Rightarrow> ustring" where
  "strip s = rev (dropWhile isspace (rev (dropWhile isspace s)))"

text \<open>
  \<open>split_from cur s\<close> scans \<open>s\<close> with the token \<open>cur\<close> under construction: a space ends
  the token, a run of spaces yields no empty token.
\<close>

fun split_from :: "ustring \<Rightarrow> ustring \<Rightarrow> ustring list" where
  "split_from cur [] = (if cur = [] then [] else [cur])"
| "split_from cur (c # cs) =
     (if isspace c then (if cur = [] then split_from [] cs else cur # split_from [] cs)
      else split_from (cur @ [c]) cs)"

definition split :: "ustring \<Rightarrow> ustring list" where
  "split s = split_from [] s"

fun join :: "ustring \<Rightarrow> ustring list \<Rightarrow> ustring" where
  "join sep [] = []"
| "join sep [x] = x"
| "join sep (x # y # ys) = x @ sep @ join sep (y # ys)"

subsection \<open>\<open>int(str)\<close> and \<open>str(int)\<close>\<close>

text \<open>
  \<open>int(s)\<close> in base 10: optional white space, an optional sign, decimal digits with single
  underscores between them, optional white space. A digit is any character with the
  Unicode property Decimal (Unicode 14.0: sixty-six runs of ten code points, each run the
  digits zero to nine). White space is ASCII 9 to 13 and 32, and the Unicode spaces above
  127; the characters 28 to 31 are not skipped. Any other input raises \<open>ValueError\<close>,
  modelled as \<open>None\<close>; so does a literal with more than \<open>int_max_str_digits\<close> digits.
\<close>

definition decimal_runs :: "codepoint list" where
  "decimal_runs =
    [0x30, 0x660, 0x6F0, 0x7C0, 0x966, 0x9E6, 0xA66, 0xAE6, 0xB66, 0xBE6, 0xC66, 0xCE6,
     0xD66, 0xDE6, 0xE50, 0xED0, 0xF20, 0x1040, 0x1090, 0x17E0, 0x1810, 0x1946, 0x19D0,
     0x1A80, 0x1A90, 0x1B50, 0x1BB0, 0x1C40, 0x1C50, 0xA620, 0xA8D0, 0xA900, 0xA9D0,
     0xA9F0, 0xAA50, 0xABF0, 0xFF10, 0x104A0, 0x10D30, 0x11066, 0x110F0, 0x11136,
     0x111D0, 0x112F0, 0x11450, 0x114D0, 0x11650, 0x116C0, 0x11730, 0x118E0, 0x11950,
     0x11C50, 0x11D50, 0x11DA0, 0x16A60, 0x16AC0, 0x16B50, 0x1D7CE, 0x1D7D8, 0x1D7E2,
     0x1D7EC, 0x1D7F6, 0x1E140, 0x1E2F0, 0x1E950, 0x1FBF0]"

definition todecimal :: "codepoint \<Rightarrow> nat option" where
  "todecimal c =
     (case find (\<lambda>s. s \<le> c \<and> c < s + 10) decimal_runs of
        None \<Rightarrow> None
      | Some s \<Rightarrow> Some (c - s))"

definition int_isspace :: "codepoint \<Rightarrow> bool" where
  "int_isspace c \<longleftrightarrow> (9 \<le> c \<and> c \<le> 13) \<or> c = 32 \<or> (127 < c \<and> isspace c)"

definition int_max_str_digits :: nat where
  "int_max_str_digits = 4300"

definition digit_or_underscore :: "codepoint \<Rightarrow> bool" where
  "digit_or_underscore c = (if c = 95 then True else todecimal c \<noteq> None)"

fun underscores_ok :: "ustring \<Rightarrow> bool" where
  "underscores_ok [] = False"
| "underscores_ok [c] = (c \<noteq> 95)"
| "underscores_ok (c # d # cs) = (if c = 95 \<and> d = 95 then False else underscores_ok (d # cs))"

definition digits_value :: "nat list \<Rightarrow> nat" where
  "digits_value ds = foldl (\<lambda>acc d. 10 * acc + d) 0 ds"

definition int_literal :: "ustring \<Rightarrow> ustring \<Rightarrow> int option" where
  "int_literal lit rest =
     (if lit = [] then None
      else if hd lit = 95 then None
      else if \<not> underscores_ok lit then None
      else if int_max_str_digits < length (List.map_filter todecimal lit) then None
      else if dropWhile int_isspace rest \<noteq> [] then None
      else Some (int (digits_value (List.map_filter todecimal lit))))"

definition int_unsigned :: "ustring \<Rightarrow> int option" where
  "int_unsigned body =
     int_literal (takeWhile digit_or_underscore body) (dropWhile digit_or_underscore body)"

definition int_signed :: "ustring \<Rightarrow> int option" where
  "int_signed t =
     (case t of
        [] \<Rightarrow> None
      | c # cs \<Rightarrow>
          if c = 43 then int_unsigned cs
          else if c = 45 then map_option uminus (int_unsigned cs)
          else int_unsigned (c # cs))"

definition py_int :: "ustring \<Rightarrow> int option" where
  "py_int s = int_signed (dropWhile int_isspace s)"

fun str_nat :: "nat \<Rightarrow> ustring" where
  "str_nat n = (if n < 10 then [48 + n] else str_nat (n div 10) @ [48 + n mod 10])"

definition str_int :: "int \<Rightarrow> ustring" where
  "str_int i = (if i < 0 then 45 # str_nat (nat (- i)) else str_nat (nat i))"

declare str_nat.simps [simp del]

subsection \<open>\<open>json.dumps\<close>\<close>

text \<open>
  The program serialises dictionaries whose values are a \<open>str\<close> or an \<open>int\<close>. A
  dictionary keeps its keys in insertion order: an association list. The serialiser is
  called with \<open>ensure_ascii=False\<close>, so a string is escaped by
  \<open>json.encoder.encode_basestring\<close>: the quotation mark, the backslash and the characters
  below 32 are escaped, every other character is copied.
\<close>

datatype json_value = JStr ustring | JInt int

type_synonym dict = "(ustring \<times> json_value) list"

definition hex_digit :: "nat \<Rightarrow> codepoint" where
  "hex_digit n = (if n < 10 then 48 + n else 87 + n)"

definition escape_char :: "codepoint \<Rightarrow> ustring" where
  "escape_char c =
     (if c = 34 then [92, 34]
      else if c = 92 then [92, 92]
      else if c = 10 then [92, 110]
      else if c = 13 then [92, 114]
      else if c = 9 then [92, 116]
      else if c = 8 then [92, 98]
      else if c = 12 then [92, 102]
      else if c < 32 then [92, 117, 48, 48, hex_digit (c div 16), hex_digit (c mod 16)]
      else [c])"

definition encode_basestring :: "ustring \<Rightarrow> ustring" where
  "encode_basestring s = [34] @ concat (map escape_char s) @ [34]"

fun encode_value :: "json_value \<Rightarrow> ustring" where
  "encode_value (JStr s) = encode_basestring s"
| "encode_value (JInt i) = str_int i"

text \<open>\<open>json.dumps(d, ensure_ascii=False, separators=(item_separator, key_separator))\<close>\<close>

definition json_dumps :: "ustring \<Rightarrow> ustring \<Rightarrow> dict \<Rightarrow> ustring" where
  "json_dumps item_separator key_separator d =
     [123] @
     join item_separator
       (map (\<lambda>(k, v). encode_basestring k @ key_separator @ encode_value v) d) @
     [125]"

subsection \<open>Encoding text as UTF-8\<close>

definition utf8_char :: "codepoint \<Rightarrow> nat list" where
  "utf8_char c =
     (if c < 0x80 then [c]
      else if c < 0x800 then [0xC0 + c div 64, 0x80 + c mod 64]
      else if c < 0x10000 then [0xE0 + c div 4096, 0x80 + c div 64 mod 64, 0x80 + c mod 64]
      else [0xF0 + c div 262144, 0x80 + c div 4096 mod 64, 0x80 + c div 64 mod 64,
            0x80 + c mod 64])"

definition utf8_encode :: "ustring \<Rightarrow> nat list" where
  "utf8_encode s = concat (map utf8_char s)"

section \<open>The world: files and the console\<close>

text \<open>
  The program reads files, writes files and prints. The world holds the text of every
  existing file, the printed lines, and for each path what goes wrong when the program
  writes it: nothing, a refused \<open>open(path, 'w')\<close> (the file stays as it was), or a
  full device (\<open>open\<close> creates or truncates the file, no text reaches it). A call either
  returns or raises; both leave a world behind. Line feeds are written as they are.
\<close>

datatype write_fault = OpenDenied | DiskFull

datatype exn = FileNotFoundError ustring | PermissionError ustring | OSError ustring

record world =
  files :: "ustring \<rightharpoonup> ustring"
  write_faults :: "ustring \<rightharpoonup> write_fault"
  stdout :: "ustring list"

datatype outcome = Returned (world_of: world) | Raised (raised: exn) (world_of: world)

definition print :: "ustring \<Rightarrow> world \<Rightarrow> world" where
  "print s w = w\<lparr>stdout := stdout w @ [s]\<rparr>"

definition exists :: "ustring \<Rightarrow> world \<Rightarrow> bool" where
  "exists path w \<longleftrightarrow> files w path \<noteq> None"

definition file_bytes :: "world \<Rightarrow> ustring \<Rightarrow> nat list option" where
  "file_bytes w path = map_option utf8_encode (files w path)"

text \<open>
  Reading in text mode translates the line ends \<open>\r\n\<close> and \<open>\r\<close> to \<open>\n\<close>; iterating
  over the file yields the lines, each with its \<open>\n\<close>, the last one possibly without.
\<close>

fun universal_newlines :: "ustring \<Rightarrow> ustring" where
  "universal_newlines [] = []"
| "universal_newlines [c] = (if c = 13 then [10] else [c])"
| "universal_newlines (c # d # cs) =
     (if c = 13 \<and> d = 10 then 10 # universal_newlines cs
      else if c = 13 then 10 # universal_newlines (d # cs)
      else c # universal_newlines (d # cs))"

fun lines_from :: "ustring \<Rightarrow> ustring \<Rightarrow> ustring list" where
  "lines_from cur [] = (if cur = [] then [] else [cur])"
| "lines_from cur (c # cs) =
     (if c = 10 then (cur @ [c]) # lines_from [] cs else lines_from (cur @ [c]) cs)"

definition readlines :: "ustring \<Rightarrow> ustring list" where
  "readlines content = lines_from [] (universal_newlines content)"

text \<open>
  \<open>with open(path, 'w', encoding='utf-8') as f\<close> followed by the calls \<open>f.write(chunk)\<close>
  for the chunks in order.
\<close>

definition write_file :: "ustring \<Rightarrow> ustring list \<Rightarrow> world \<Rightarrow> outcome" where
  "write_file path chunks w =
     (case write_faults w path of
        None \<Rightarrow> Returned (w\<lparr>files := (files w)(path \<mapsto> concat chunks)\<rparr>)
      | Some OpenDenied \<Rightarrow> Raised (PermissionError path) w
      | Some DiskFull \<Rightarrow> Raised (OSError path) (w\<lparr>files := (files w)(path \<mapsto> [])\<rparr>))"

section \<open>The program\<close>

subsection \<open>\<open>convert_txt_to_json\<close>\<close>

text \<open>The dictionary \<open>{"w": word, "f": freq_int}\<close>.\<close>

definition mk_entry :: "ustring \<Rightarrow> int \<Rightarrow> dict" where
  "mk_entry word freq_int = [(ascii ''w'', JStr word), (ascii ''f'', JInt freq_int)]"

definition warn_format :: "nat \<Rightarrow> ustring \<Rightarrow> ustring" where
  "warn_format line_num line =
     ascii ''Warning: Line '' @ str_nat line_num @ ascii '' has invalid format: '' @ line"

definition warn_frequency :: "nat \<Rightarrow> ustring \<Rightarrow> ustring" where
  "warn_frequency line_num frequency =
     ascii ''Warning: Line '' @ str_nat line_num @ ascii '' has invalid frequency: '' @
     frequency"

text \<open>
  The body of the reading loop, on the list \<open>entries\<close> and the world: a blank line
  changes nothing, a line of one token and a line whose last token is no integer print
  a warning, any other line appends an entry.
\<close>

definition process_line :: "nat \<Rightarrow> ustring \<Rightarrow> dict list \<times> world \<Rightarrow> dict list \<times> world" where
  "process_line line_num raw st =
     (case st of (entries, w) \<Rightarrow>
        let line = strip raw in
        if line = [] then (entries, w)
        else
          let parts = split line in
          if length parts < 2 then (entries, print (warn_format line_num line) w)
          else
            let frequency = last parts;
                word = join [32] (butlast parts)
            in case py_int frequency of
                 Some freq_int \<Rightarrow> (entries @ [mk_entry word freq_int], w)
               | None \<Rightarrow> (entries, print (warn_frequency line_num frequency) w))"

text \<open>\<open>for line_num, line in enumerate(f, 1)\<close>\<close>

definition read_loop_from :: "nat \<Rightarrow> ustring list \<Rightarrow> dict list \<times> world \<Rightarrow> dict list \<times> world" where
  "read_loop_from start ls st =
     foldl (\<lambda>st (line_num, raw). process_line line_num raw st) st (enumerate start ls)"

definition read_loop :: "ustring list \<Rightarrow> dict list \<times> world \<Rightarrow> dict list \<times> world" where
  "read_loop ls st = read_loop_from 1 ls st"

text \<open>
  The first half of the function: \<open>entries = []\<close>, the message, and the loop over the
  lines of the source file. Opening a file that is not there raises.
\<close>

definition read_entries :: "ustring \<Rightarrow> world \<Rightarrow> (exn + dict list) \<times> world" where
  "read_entries txt_file w =
     (let w1 = print (ascii ''Reading '' @ txt_file @ ascii ''...'') w
      in case files w1 txt_file of
           None \<Rightarrow> (Inl (FileNotFoundError txt_file), w1)
         | Some content \<Rightarrow>
             (case read_loop (readlines content) ([], w1) of
                (entries, w2) \<Rightarrow> (Inr entries, w2)))"

text \<open>
  The calls of \<open>f.write\<close> in order: the opening bracket, one line for each entry (with a
  comma unless \<open>i\<close> is the last index), the closing bracket.
\<close>

definition entry_line :: "dict list \<Rightarrow> nat \<times> dict \<Rightarrow> ustring" where
  "entry_line entries ie =
     (case ie of (i, entry) \<Rightarrow>
        let json_line = json_dumps [44] [58] entry in
        if int i < int (length entries) - 1 then ascii ''  '' @ json_line @ [44, 10]
        else ascii ''  '' @ json_line @ [10])"

definition write_calls :: "dict list \<Rightarrow> ustring list" where
  "write_calls entries = [[91, 10]] @ map (entry_line entries) (enumerate 0 entries) @ [[93]]"

text \<open>The second half: the message, the destination file, the closing message.\<close>

definition write_entries :: "ustring \<Rightarrow> dict list \<Rightarrow> world \<Rightarrow> outcome" where
  "write_entries json_file entries w =
     (let w1 = print (ascii ''Writing '' @ json_file @ ascii '' with '' @
                      str_nat (length entries) @ ascii '' entries...'') w
      in case write_file json_file (write_calls entries) w1 of
           Raised e w2 \<Rightarrow> Raised e w2
         | Returned w2 \<Rightarrow>
             Returned (print (ascii ''Conversion complete: '' @ str_nat (length entries) @
                              ascii '' entries written to '' @ json_file) w2))"

definition convert_txt_to_json :: "ustring \<Rightarrow> ustring \<Rightarrow> world \<Rightarrow> outcome" where
  "convert_txt_to_json txt_file json_file w =
     (case read_entries txt_file w of
        (Inl e, w1) \<Rightarrow> Raised e w1
      | (Inr entries, w1) \<Rightarrow> write_entries json_file entries w1)"

subsection \<open>\<open>main\<close>\<close>

text \<open>\<open>os.path.join\<close> of two components, with \<open>/\<close> as the separator.\<close>

definition path_join :: "ustring \<Rightarrow> ustring \<Rightarrow> ustring" where
  "path_join a b =
     (if b \<noteq> [] \<and> hd b = 47 then b
      else if a = [] \<or> last a = 47 then a @ b
      else a @ [47] @ b)"

text \<open>
  The loop of \<open>main\<close> over the pairs of file names. Nothing catches an exception of
  \<open>convert_txt_to_json\<close>: it leaves the loop and \<open>main\<close>.
\<close>

fun main_loop :: "ustring \<Rightarrow> (ustring \<times> ustring) list \<Rightarrow> world \<Rightarrow> outcome" where
  "main_loop base [] w = Returned w"
| "main_loop base ((txt_file, json_file) # rest) w =
     (let txt_path = path_join base txt_file;
          json_path = path_join base json_file
      in if \<not> exists txt_path w
         then main_loop base rest (print (ascii ''Error: '' @ txt_path @ ascii '' not found!'') w)
         else case convert_txt_to_json txt_path json_path w of
                Raised e w1 \<Rightarrow> Raised e w1
              | Returned w1 \<Rightarrow> main_loop base rest (print [] w1))"

definition base_dir :: ustring where
  "base_dir = ascii ''app/src/main/assets/common/dictionaries''"

definition conversions :: "(ustring \<times> ustring) list" where
  "conversions =
     [(ascii ''en_50k.txt'', ascii ''en_base.json''),
      (ascii ''fr_50k.txt'', ascii ''fr_base.json''),
      (ascii ''pl_50k.txt'', ascii ''pl_base.json''),
      (ascii ''de_50k.txt'', ascii ''de_base.json''),
      (ascii ''ru_50k.txt'', ascii ''ru_base.json''),
      (ascii ''pt_50k.txt'', ascii ''pt_base.json''),
      (ascii ''es_50k.txt'', ascii ''es_base.json'')]"

definition main :: "world \<Rightarrow> outcome" where
  "main w = main_loop base_dir conversions w"

section \<open>The specification's line parser\<close>

text \<open>
  The specification describes the conversion through a line parser that gives, for one
  line, an entry or a rejection: strip the line, split it on runs of white space, demand
  two tokens, read the last one as the frequency and join the others with one space.
  This definition follows those words; the theorems compare the loop with it.
\<close>

definition spec_parse_line :: "ustring \<Rightarrow> (ustring \<times> int) option" where
  "spec_parse_line raw =
     (case rev (split (strip raw)) of
        [] \<Rightarrow> None
      | [t] \<Rightarrow> None
      | t # u # ts \<Rightarrow> map_option (\<lambda>n. (join [32] (rev (u # ts)), n)) (py_int t))"

definition spec_entries :: "ustring list \<Rightarrow> (ustring \<times> int) list" where
  "spec_entries ls = List.map_filter spec_parse_line ls"

text \<open>
  The output the specification fixes. An entry is an object on one line, the key \<open>w\<close>
  with the word as a JSON string, then the key \<open>f\<close> with the frequency in decimal, and
  no space after the colon or the comma. The file is an opening bracket and a line feed,
  the entries each indented by two spaces, a comma after every entry but the last, and
  a line feed and the closing bracket after the last entry.
\<close>

definition spec_object :: "ustring \<Rightarrow> int \<Rightarrow> ustring" where
  \<open>spec_object word n =
     ascii ''{"w":'' @ encode_basestring word @ ascii '',"f":'' @ str_int n @ ascii ''}''\<close>

definition spec_text :: "(ustring \<times> int) list \<Rightarrow> ustring" where
  "spec_text wfs =
     (if wfs = [] then [91, 10, 93]
      else [91, 10] @
           concat (map (\<lambda>(word, n). ascii ''  '' @ spec_object word n @ [44, 10]) (butlast wfs)) @
           (case last wfs of (word, n) \<Rightarrow> ascii ''  '' @ spec_object word n @ [10]) @
           [93])"

text \<open>A base-10 literal in the plain sense: ASCII digits, with an optional minus sign.\<close>

definition plain_base10 :: "ustring \<Rightarrow> bool" where
  "plain_base10 s =
     (case s of
        [] \<Rightarrow> False
      | c # cs \<Rightarrow>
          if c = 45 then cs \<noteq> [] \<and> list_all (\<lambda>d. 48 \<le> d \<and> d \<le> 57) cs
          else list_all (\<lambda>d. 48 \<le> d \<and> d \<le> 57) (c # cs))"

section \<open>Example inputs\<close>

definition empty_world :: world where
  "empty_world = \<lparr>files = Map.empty, write_faults = Map.empty, stdout = []\<rparr>"

text \<open>
  A source file with a blank line, a line of one token, a repeated word and a line whose
  frequency is no number; the third line ends with \<open>\r\n\<close>.
\<close>

definition example_txt :: ustring where
  "example_txt =
     ascii ''le 100'' @ [10] @ [10] @ ascii ''solo'' @ [13, 10] @ ascii ''le 100'' @ [10] @
     ascii ''la abc'' @ [10] @ ascii ''New  York 1234'' @ [10] @ ascii ''la 90''"

definition example_json :: ustring where
  \<open>example_json =
     ascii ''['' @ [10] @
     ascii ''  {"w":"le","f":100},'' @ [10] @
     ascii ''  {"w":"le","f":100},'' @ [10] @
     ascii ''  {"w":"New York","f":1234},'' @ [10] @
     ascii ''  {"w":"la","f":90}'' @ [10] @
     ascii '']''\<close>

definition example_world :: world where
  "example_world =
     \<lparr>files = [ascii ''in.txt'' \<mapsto> example_txt], write_faults = Map.empty, stdout = []\<rparr>"

text \<open>A source file without any valid line.\<close>

definition rejected_txt :: ustring where
  "rejected_txt = [10] @ ascii ''   '' @ [10] @ ascii ''solo'' @ [10] @ ascii ''word abc'' @ [10]"

definition rejected_world :: world where
  "rejected_world =
     \<lparr>files = [ascii ''in.txt'' \<mapsto> rejected_txt], write_faults = Map.empty, stdout = []\<rparr>"

text \<open>
  A directory where the English and the French word lists exist and the English
  destination cannot be opened for writing.
\<close>

definition denied_world :: world where
  "denied_world =
     \<lparr>files = [path_join base_dir (ascii ''en_50k.txt'') \<mapsto> ascii ''the 100'' @ [10],
               path_join base_dir (ascii ''fr_50k.txt'') \<mapsto> ascii ''le 100'' @ [10]],
      write_faults = [path_join base_dir (ascii ''en_base.json'') \<mapsto> OpenDenied],
      stdout = []\<rparr>"

text \<open>A directory \<open>d\<close> with the second of two sources only.\<close>

definition second_only_world :: world where
  "second_only_world =
     \<lparr>files = [ascii ''d/b.txt'' \<mapsto> ascii ''le 100'' @ [10] @ ascii ''la 90'' @ [10]],
      write_faults = Map.empty, stdout = []\<rparr>"

definition two_jobs :: "(ustring \<times> ustring) list" where
  "two_jobs = [(ascii ''a.txt'', ascii ''a.json''), (ascii ''b.txt'', ascii ''b.json'')]"

definition le_la_json :: ustring where
  \<open>le_la_json =
     ascii ''['' @ [10] @
     ascii ''  {"w":"le","f":100},'' @ [10] @
     ascii ''  {"w":"la","f":90}'' @ [10] @
     ascii '']''\<close>

section \<open>Evaluating the model\<close>

text \<open>
  Rules for running the definitions on concrete text. An ASCII character is a digit
  exactly when it lies between \<open>0\<close> and \<open>9\<close>; the table of the other digits is not
  consulted for it.
\<close>

lemma todecimal_ascii:
  "c < 0x660 \<Longrightarrow> todecimal c = (if 48 \<le> c \<and> c \<le> 57 then Some (c - 48) else None)"
  by (simp add: todecimal_def decimal_runs_def)

lemma todecimal_arabic_indic: "todecimal 0x661 = Some 1" "todecimal 0x662 = Some 2"
  by (simp_all add: todecimal_def decimal_runs_def)

lemmas text_eval = ascii_def isspace_def strip_def split_def

lemmas int_eval = py_int_def int_signed_def int_unsigned_def int_literal_def int_isspace_def
  isspace_def digit_or_underscore_def todecimal_ascii digits_value_def int_max_str_digits_def
  List.map_filter_def

lemmas spec_eval = spec_parse_line_def spec_entries_def spec_text_def spec_object_def
  encode_basestring_def escape_char_def str_int_def str_nat.simps readlines_def

lemmas run_eval = convert_txt_to_json_def read_entries_def write_entries_def write_file_def
  write_calls_def entry_line_def json_dumps_def mk_entry_def encode_basestring_def
  escape_char_def str_int_def str_nat.simps readlines_def read_loop_def read_loop_from_def
  process_line_def print_def exists_def path_join_def warn_format_def warn_frequency_def

section \<open>Splitting and stripping\<close>

lemma split_from_Nil_iff: "split_from cur s = [] \<longleftrightarrow> cur = [] \<and> (\<forall>c\<in>set s. isspace c)"
  by (induction s arbitrary: cur) auto

lemma split_Nil [simp]: "split [] = []"
  by (simp add: split_def)

lemma strip_Nil [simp]: "strip [] = []"
  by (simp add: strip_def)

lemma split_from_token:
  "cur \<noteq> [] \<Longrightarrow>
   split_from cur s =
     (cur @ takeWhile (\<lambda>c. \<not> isspace c) s) # split_from [] (dropWhile (\<lambda>c. \<not> isspace c) s)"
  by (induction s arbitrary: cur) simp_all

lemma split_first_token:
  "s \<noteq> [] \<Longrightarrow> \<not> isspace (hd s) \<Longrightarrow>
   split s = takeWhile (\<lambda>c. \<not> isspace c) s # split_from [] (dropWhile (\<lambda>c. \<not> isspace c) s)"
  by (cases s) (simp_all add: split_def split_from_token)

lemma strip_last: "strip s \<noteq> [] \<Longrightarrow> \<not> isspace (last (strip s))"
proof -
  assume a: "strip s \<noteq> []"
  then have "dropWhile isspace (rev (dropWhile isspace s)) \<noteq> []" by (simp add: strip_def)
  then have "\<not> isspace (hd (dropWhile isspace (rev (dropWhile isspace s))))"
    by (rule hd_dropWhile)
  with a show ?thesis by (simp add: strip_def last_rev)
qed

lemma rev_dropWhile_split:
  "xs = rev (dropWhile P (rev xs)) @ rev (takeWhile P (rev xs))"
proof -
  have "rev xs = takeWhile P (rev xs) @ dropWhile P (rev xs)" by simp
  then have "rev (rev xs) = rev (takeWhile P (rev xs) @ dropWhile P (rev xs))"
    by (rule arg_cong)
  then show ?thesis by (simp only: rev_rev_ident rev_append)
qed

lemma strip_prefix:
  "dropWhile isspace s = strip s @ rev (takeWhile isspace (rev (dropWhile isspace s)))"
  unfolding strip_def by (rule rev_dropWhile_split)

lemma strip_hd: "strip s \<noteq> [] \<Longrightarrow> \<not> isspace (hd (strip s))"
proof -
  assume a: "strip s \<noteq> []"
  have ne: "dropWhile isspace s \<noteq> []"
  proof
    assume "dropWhile isspace s = []"
    with strip_prefix [of s] have "strip s @ rev (takeWhile isspace (rev [])) = []"
      by simp
    with a show False by simp
  qed
  have "hd (strip s @ rev (takeWhile isspace (rev (dropWhile isspace s)))) = hd (strip s)"
    using a by (rule hd_append2)
  then have "hd (dropWhile isspace s) = hd (strip s)"
    by (simp only: strip_prefix [symmetric])
  with hd_dropWhile [OF ne] show ?thesis by simp
qed

lemma split_single_token:
  assumes "strip s \<noteq> []" and "length (split (strip s)) < 2"
  shows "split (strip s) = [strip s]"
proof -
  define t where "t = strip s"
  define r where "r = dropWhile (\<lambda>c. \<not> isspace c) t"
  define k where "k = takeWhile (\<lambda>c. \<not> isspace c) t"
  have t: "t \<noteq> []" using assms(1) by (simp add: t_def)
  have kr: "k @ r = t" by (simp add: k_def r_def)
  have sp: "split t = k # split_from [] r"
    unfolding k_def r_def t_def by (rule split_first_token [OF assms(1) strip_hd [OF assms(1)]])
  have len: "length (split t) < 2" using assms(2) by (simp add: t_def)
  have "length (k # split_from [] r) < 2" using len by (simp only: sp)
  then have e: "split_from [] r = []" by simp
  then have all: "\<forall>c\<in>set r. isspace c" by (simp add: split_from_Nil_iff)
  have "r = []"
  proof (rule ccontr)
    assume ne: "r \<noteq> []"
    have "last (k @ r) = last r" using ne by (rule last_appendR)
    then have "last t = last r" by (simp only: kr)
    moreover have "isspace (last r)" using all ne by simp
    ultimately have "isspace (last t)" by simp
    with strip_last [OF assms(1)] show False by (simp add: t_def)
  qed
  with kr have "k = t" by simp
  with sp e show ?thesis by (simp add: t_def)
qed






section \<open>The reading loop\<close>

text \<open>The four ways through the body of the loop.\<close>

lemma process_line_blank:
  "strip raw = [] \<Longrightarrow> process_line n raw st = st"
  by (cases st) (simp add: process_line_def)

lemma process_line_malformed:
  "strip raw \<noteq> [] \<Longrightarrow> length (split (strip raw)) < 2 \<Longrightarrow>
   process_line n raw (es, w) = (es, print (warn_format n (strip raw)) w)"
  by (simp add: process_line_def)

lemma process_line_bad_frequency:
  "2 \<le> length (split (strip raw)) \<Longrightarrow> py_int (last (split (strip raw))) = None \<Longrightarrow>
   process_line n raw (es, w) =
     (es, print (warn_frequency n (last (split (strip raw)))) w)"
  by (auto simp add: process_line_def Let_def)

lemma process_line_accept:
  "2 \<le> length (split (strip raw)) \<Longrightarrow> py_int (last (split (strip raw))) = Some v \<Longrightarrow>
   process_line n raw (es, w) =
     (es @ [mk_entry (join [32] (butlast (split (strip raw)))) v], w)"
  by (auto simp add: process_line_def Let_def)

text \<open>The body of the loop adds to \<open>entries\<close> what the specification's parser gives.\<close>

lemma rev_two:
  "2 \<le> length xs \<Longrightarrow> \<exists>ys. rev xs = last xs # last (butlast xs) # ys \<and> rev (last (butlast xs) # ys) = butlast xs"
proof (induction xs rule: rev_induct)
  case Nil then show ?case by simp
next
  case (snoc x xs)
  then have "xs \<noteq> []" by auto
  then obtain zs z where "xs = zs @ [z]" by (metis rev_exhaust)
  then show ?case by (simp add: butlast_append)
qed

lemma spec_parse_line_short:
  "length (split (strip raw)) < 2 \<Longrightarrow> spec_parse_line raw = None"
  by (cases "split (strip raw)" rule: rev_cases) (auto simp: spec_parse_line_def split: list.splits)

lemma spec_parse_line_long:
  assumes "2 \<le> length (split (strip raw))"
  shows "spec_parse_line raw =
     map_option (\<lambda>v. (join [32] (butlast (split (strip raw))), v)) (py_int (last (split (strip raw))))"
proof -
  from rev_two [OF assms] obtain ys where
    r: "rev (split (strip raw)) = last (split (strip raw)) # last (butlast (split (strip raw))) # ys"
    and b: "rev (last (butlast (split (strip raw))) # ys) = butlast (split (strip raw))" by blast
  show ?thesis unfolding spec_parse_line_def r using b by simp
qed

lemma process_line_spec:
  "process_line n raw (es, w) = (es', w') \<Longrightarrow>
   es' = es @ (case spec_parse_line raw of None \<Rightarrow> [] | Some (word, v) \<Rightarrow> [mk_entry word v])"
proof (cases "length (split (strip raw)) < 2")
  case True
  assume p: "process_line n raw (es, w) = (es', w')"
  show ?thesis
  proof (cases "strip raw = []")
    case True
    with p show ?thesis by (simp add: process_line_blank spec_parse_line_short)
  next
    case False
    with p True show ?thesis by (simp add: process_line_malformed spec_parse_line_short)
  qed
next
  case False
  assume p: "process_line n raw (es, w) = (es', w')"
  from False have l: "2 \<le> length (split (strip raw))" by simp
  show ?thesis
  proof (cases "py_int (last (split (strip raw)))")
    case None
    with p l show ?thesis by (simp add: process_line_bad_frequency spec_parse_line_long)
  next
    case (Some v)
    with p l show ?thesis by (simp add: process_line_accept spec_parse_line_long)
  qed
qed

lemma process_line_world:
  "process_line n raw (es, w) = (es', w') \<Longrightarrow>
   files w' = files w \<and> write_faults w' = write_faults w"
  by (auto simp add: process_line_def Let_def print_def split: if_splits option.splits)

lemma read_loop_from_Nil [simp]: "read_loop_from n [] st = st"
  by (simp add: read_loop_from_def)

lemma read_loop_from_Cons [simp]:
  "read_loop_from n (l # ls) st = read_loop_from (Suc n) ls (process_line n l st)"
  by (simp add: read_loop_from_def)

lemma read_loop_from_append:
  "read_loop_from n (xs @ ys) st = read_loop_from (n + length xs) ys (read_loop_from n xs st)"
  by (induction xs arbitrary: n st) simp_all

lemma read_loop_at:
  "read_loop (pre @ raw # post) st =
     read_loop_from (length pre + 2) post
       (process_line (length pre + 1) raw (read_loop pre st))"
  by (simp add: read_loop_def read_loop_from_append)

lemma read_loop_from_entries:
  "fst (read_loop_from n ls (es, w)) = es @ map (\<lambda>(word, v). mk_entry word v) (spec_entries ls)"
proof (induction ls arbitrary: n es w)
  case Nil
  show ?case by (simp add: spec_entries_def)
next
  case (Cons l ls)
  obtain es' w' where p: "process_line n l (es, w) = (es', w')" by (cases "process_line n l (es, w)")
  from process_line_spec [OF p] Cons [of "Suc n" es' w'] p show ?case
    by (auto simp add: spec_entries_def split: option.splits)
qed

lemma read_loop_from_world:
  "read_loop_from n ls (es, w) = (es', w') \<Longrightarrow>
   files w' = files w \<and> write_faults w' = write_faults w"
proof (induction ls arbitrary: n es w)
  case Nil
  then show ?case by simp
next
  case (Cons l ls)
  obtain es1 w1 where p: "process_line n l (es, w) = (es1, w1)"
    by (cases "process_line n l (es, w)")
  from Cons.prems p have "read_loop_from (Suc n) ls (es1, w1) = (es', w')" by simp
  from Cons.IH [OF this] process_line_world [OF p] show ?case by simp
qed

lemma map_filter_all_None: "\<forall>x\<in>set xs. f x = None \<Longrightarrow> List.map_filter f xs = []"
  by (induction xs) simp_all

lemma int_unsigned_nonneg: "int_unsigned body = Some v \<Longrightarrow> 0 \<le> v"
  by (auto simp add: int_unsigned_def int_literal_def split: if_splits)


section \<open>The writing loop\<close>

lemma entry_lines_aux:
  "xs \<noteq> [] \<Longrightarrow> N = k + length xs \<Longrightarrow>
   map (\<lambda>(i, e). if int i < int N - 1 then A e else B e) (enumerate k xs) =
   map A (butlast xs) @ [B (last xs)]"
proof (induction xs arbitrary: k)
  case Nil
  then show ?case by simp
next
  case (Cons x xs)
  show ?case
  proof (cases "xs = []")
    case True
    with Cons.prems show ?thesis by simp
  next
    case False
    from Cons.prems have "N = Suc k + length xs" by simp
    from Cons.IH [OF False this] False Cons.prems show ?thesis by simp
  qed
qed

lemma entry_line_eq:
  "entry_line entries = (\<lambda>(i, e). if int i < int (length entries) - 1
       then ascii ''  '' @ json_dumps [44] [58] e @ [44, 10]
       else ascii ''  '' @ json_dumps [44] [58] e @ [10])"
  by (auto simp add: entry_line_def fun_eq_iff Let_def)

lemma write_calls_Nil: "concat (write_calls []) = [91, 10, 93]"
  by (simp add: write_calls_def)

lemma write_calls_closed:
  assumes "entries \<noteq> []"
  shows "concat (write_calls entries) =
     [91, 10] @
     concat (map (\<lambda>e. ascii ''  '' @ json_dumps [44] [58] e @ [44, 10]) (butlast entries)) @
     ascii ''  '' @ json_dumps [44] [58] (last entries) @ [10] @ [93]"
proof -
  have "map (entry_line entries) (enumerate 0 entries) =
        map (\<lambda>e. ascii ''  '' @ json_dumps [44] [58] e @ [44, 10]) (butlast entries) @
        [ascii ''  '' @ json_dumps [44] [58] (last entries) @ [10]]"
    unfolding entry_line_eq by (rule entry_lines_aux [OF assms]) simp
  then show ?thesis by (simp add: write_calls_def)
qed

lemma json_dumps_entry:
  "json_dumps [44] [58] (mk_entry word n) =
     [123, 34, 119, 34, 58] @ encode_basestring word @ [44, 34, 102, 34, 58] @ str_int n @ [125]"
  by (simp add: json_dumps_def mk_entry_def ascii_def encode_basestring_def escape_char_def)

lemma json_dumps_spec_object: "json_dumps [44] [58] (mk_entry word n) = spec_object word n"
  by (simp add: json_dumps_entry spec_object_def ascii_def)

lemma write_calls_spec_text:
  "concat (write_calls (map (\<lambda>(word, n). mk_entry word n) wfs)) = spec_text wfs"
proof (cases "wfs = []")
  case True
  then show ?thesis by (simp add: write_calls_Nil spec_text_def)
next
  case False
  then have ne: "map (\<lambda>(word, n). mk_entry word n) wfs \<noteq> []" by simp
  from False show ?thesis
    unfolding write_calls_closed [OF ne]
    by (simp add: spec_text_def map_butlast [symmetric] last_map json_dumps_spec_object
        case_prod_unfold comp_def)
qed

lemma write_entries_ok:
  "write_faults w json_file = None \<Longrightarrow>
   \<exists>w'. write_entries json_file entries w = Returned w' \<and>
        files w' = (files w)(json_file \<mapsto> concat (write_calls entries)) \<and>
        write_faults w' = write_faults w"
  by (simp add: write_entries_def write_file_def print_def Let_def)

lemma write_entries_fault:
  "write_faults w json_file = Some fault \<Longrightarrow>
   \<exists>e w'. write_entries json_file entries w = Raised e w' \<and>
          (\<forall>p. p \<noteq> json_file \<longrightarrow> files w' p = files w p)"
  by (cases fault) (simp_all add: write_entries_def write_file_def print_def Let_def)

text \<open>An entry is rendered without any control character, so on one line.\<close>

lemma str_nat_digits: "set (str_nat n) \<subseteq> {48..57}"
proof (induction n rule: str_nat.induct)
  case (1 n)
  show ?case
  proof (cases "n < 10")
    case True
    then show ?thesis by (subst str_nat.simps) simp
  next
    case False
    have "n mod 10 < 10" by simp
    then have "48 + n mod 10 \<in> {48..57}" by (simp del: mod_less_divisor)
    with 1 False show ?thesis by (subst str_nat.simps) simp
  qed
qed

lemma str_int_chars: "set (str_int i) \<subseteq> insert 45 {48..57}"
  using str_nat_digits by (auto simp add: str_int_def)

lemma hex_digit_range: "n < 16 \<Longrightarrow> 48 \<le> hex_digit n \<and> hex_digit n \<le> 102"
  by (simp add: hex_digit_def)

lemma escape_char_no_control: "d \<in> set (escape_char c) \<Longrightarrow> 32 \<le> d"
proof -
  assume d: "d \<in> set (escape_char c)"
  have h1: "48 \<le> hex_digit (c div 16)" if "c < 32"
    using that hex_digit_range [of "c div 16"] by simp
  have h2: "48 \<le> hex_digit (c mod 16)"
    using hex_digit_range [of "c mod 16"] by simp
  from d h1 h2 show ?thesis
    by (auto simp add: escape_char_def split: if_splits)
qed

lemma encode_basestring_no_control: "d \<in> set (encode_basestring s) \<Longrightarrow> 32 \<le> d"
  by (auto simp add: encode_basestring_def dest: escape_char_no_control)

lemma spec_object_no_control: "d \<in> set (spec_object word n) \<Longrightarrow> 32 \<le> d"
  using str_int_chars [of n]
  by (auto simp add: spec_object_def ascii_def dest: encode_basestring_no_control)

lemma spec_object_one_line: "10 \<notin> set (spec_object word n) \<and> 13 \<notin> set (spec_object word n)"
  using spec_object_no_control [of 10 word n] spec_object_no_control [of 13 word n] by auto

lemma escape_char_literal: "32 \<le> c \<Longrightarrow> c \<noteq> 34 \<Longrightarrow> c \<noteq> 92 \<Longrightarrow> escape_char c = [c]"
  by (simp add: escape_char_def)

lemma utf8_encode_ascii: "\<forall>c\<in>set s. c < 128 \<Longrightarrow> utf8_encode s = s"
  by (induction s) (simp_all add: utf8_encode_def utf8_char_def)

section \<open>The converter and the runner\<close>

lemma read_entries_ok:
  assumes "files w txt_file = Some content"
  shows "\<exists>w1. read_entries txt_file w =
            (Inr (map (\<lambda>(word, v). mk_entry word v) (spec_entries (readlines content))), w1) \<and>
              files w1 = files w \<and> write_faults w1 = write_faults w"
proof -
  let ?w0 = "print (ascii ''Reading '' @ txt_file @ ascii ''...'') w"
  obtain es w1 where r: "read_loop_from 1 (readlines content) ([], ?w0) = (es, w1)"
    by (cases "read_loop_from 1 (readlines content) ([], ?w0)")
  from read_loop_from_entries [of 1 "readlines content" "[]" ?w0] r
  have es: "es = map (\<lambda>(word, v). mk_entry word v) (spec_entries (readlines content))" by simp
  from read_loop_from_world [OF r]
  have w: "files w1 = files w" "write_faults w1 = write_faults w" by (simp_all add: print_def)
  from assms r es w show ?thesis
    by (simp add: read_entries_def read_loop_def print_def Let_def)
qed

lemma read_entries_missing:
  "files w txt_file = None \<Longrightarrow>
   read_entries txt_file w =
     (Inl (FileNotFoundError txt_file), print (ascii ''Reading '' @ txt_file @ ascii ''...'') w)"
  by (simp add: read_entries_def print_def Let_def)

lemma convert_ok:
  assumes "files w txt_file = Some content" and "write_faults w json_file = None"
  shows "\<exists>w'. convert_txt_to_json txt_file json_file w = Returned w' \<and>
          files w' = (files w)(json_file \<mapsto> spec_text (spec_entries (readlines content))) \<and>
          write_faults w' = write_faults w"
proof -
  from read_entries_ok [OF assms(1)] obtain w1 where
    r: "read_entries txt_file w =
          (Inr (map (\<lambda>(word, v). mk_entry word v) (spec_entries (readlines content))), w1)"
    and w1: "files w1 = files w" "write_faults w1 = write_faults w" by blast
  from assms(2) w1 have "write_faults w1 json_file = None" by simp
  from write_entries_ok [OF this, of "map (\<lambda>(word, v). mk_entry word v) (spec_entries (readlines content))"] r w1
  show ?thesis by (auto simp add: convert_txt_to_json_def write_calls_spec_text)
qed

lemma convert_write_fault:
  assumes "files w txt_file = Some content" and "write_faults w json_file = Some fault"
  shows "\<exists>e w'. convert_txt_to_json txt_file json_file w = Raised e w' \<and>
          (\<forall>p. p \<noteq> json_file \<longrightarrow> files w' p = files w p)"
proof -
  from read_entries_ok [OF assms(1)] obtain w1 where
    r: "read_entries txt_file w =
          (Inr (map (\<lambda>(word, v). mk_entry word v) (spec_entries (readlines content))), w1)"
    and w1: "files w1 = files w" "write_faults w1 = write_faults w" by blast
  from assms(2) w1 have "write_faults w1 json_file = Some fault" by simp
  from write_entries_fault [OF this, of "map (\<lambda>(word, v). mk_entry word v) (spec_entries (readlines content))"] r w1
  show ?thesis by (auto simp add: convert_txt_to_json_def)
qed

lemma main_loop_append:
  "main_loop base (xs @ ys) w =
     (case main_loop base xs w of
        Returned w1 \<Rightarrow> main_loop base ys w1
      | Raised e w1 \<Rightarrow> Raised e w1)"
proof (induction xs arbitrary: w)
  case Nil
  show ?case by simp
next
  case (Cons x xs)
  obtain t j where x: "x = (t, j)" by (cases x)
  show ?case unfolding x
    by (simp add: Cons.IH Let_def split: outcome.splits)
qed

lemma main_loop_missing:
  "\<not> exists (path_join base txt_file) w \<Longrightarrow>
   main_loop base ((txt_file, json_file) # rest) w =
     main_loop base rest
       (print (ascii ''Error: '' @ path_join base txt_file @ ascii '' not found!'') w)"
  by (simp add: Let_def)

lemma main_loop_raise:
  "exists (path_join base txt_file) w \<Longrightarrow>
   convert_txt_to_json (path_join base txt_file) (path_join base json_file) w = Raised e w1 \<Longrightarrow>
   main_loop base ((txt_file, json_file) # rest) w = Raised e w1"
  by (simp add: Let_def)

lemma main_loop_return:
  "exists (path_join base txt_file) w \<Longrightarrow>
   convert_txt_to_json (path_join base txt_file) (path_join base json_file) w = Returned w1 \<Longrightarrow>
   main_loop base ((txt_file, json_file) # rest) w = main_loop base rest (print [] w1)"
  by (simp add: Let_def)

text \<open>
  Where no write can fail the runner returns, it deletes no file, and every job whose
  source exists has its destination afterwards.
\<close>

lemma main_loop_outputs:
  assumes "write_faults w = Map.empty"
  shows "\<exists>w'. main_loop base jobs w = Returned w' \<and> write_faults w' = Map.empty \<and>
          dom (files w) \<subseteq> dom (files w') \<and>
          (\<forall>(t, j)\<in>set jobs. exists (path_join base t) w \<longrightarrow> exists (path_join base j) w')"
  using assms
proof (induction jobs arbitrary: w)
  case Nil
  then show ?case by simp
next
  case (Cons job jobs)
  obtain t j where job: "job = (t, j)" by (cases job)
  show ?case
  proof (cases "exists (path_join base t) w")
    case False
    let ?w1 = "print (ascii ''Error: '' @ path_join base t @ ascii '' not found!'') w"
    from Cons.prems have "write_faults ?w1 = Map.empty" by (simp add: print_def)
    from Cons.IH [OF this] obtain w' where
      r: "main_loop base jobs ?w1 = Returned w'" and f: "write_faults w' = Map.empty"
      and d: "dom (files ?w1) \<subseteq> dom (files w')"
      and o: "\<forall>(t, j)\<in>set jobs. exists (path_join base t) ?w1 \<longrightarrow> exists (path_join base j) w'"
      by blast
    from False r have "main_loop base (job # jobs) w = Returned w'"
      by (simp add: job main_loop_missing)
    moreover from d have "dom (files w) \<subseteq> dom (files w')" by (simp add: print_def)
    moreover from o False
    have "\<forall>(t, j)\<in>set (job # jobs). exists (path_join base t) w \<longrightarrow> exists (path_join base j) w'"
      by (auto simp add: job exists_def print_def)
    ultimately show ?thesis using f by blast
  next
    case True
    then obtain content where c: "files w (path_join base t) = Some content"
      by (auto simp add: exists_def)
    from Cons.prems have n: "write_faults w (path_join base j) = None" by simp
    from convert_ok [OF c n] obtain w1 where
      cv: "convert_txt_to_json (path_join base t) (path_join base j) w = Returned w1"
      and f1: "files w1 = (files w)(path_join base j \<mapsto> spec_text (spec_entries (readlines content)))"
      and g1: "write_faults w1 = write_faults w" by blast
    let ?w2 = "print [] w1"
    from g1 Cons.prems have "write_faults ?w2 = Map.empty" by (simp add: print_def)
    from Cons.IH [OF this] obtain w' where
      r: "main_loop base jobs ?w2 = Returned w'" and f: "write_faults w' = Map.empty"
      and d: "dom (files ?w2) \<subseteq> dom (files w')"
      and o: "\<forall>(t, j)\<in>set jobs. exists (path_join base t) ?w2 \<longrightarrow> exists (path_join base j) w'"
      by blast
    from True cv r have "main_loop base (job # jobs) w = Returned w'"
      by (simp add: job main_loop_return)
    moreover from d f1 have "dom (files w) \<subseteq> dom (files w')"
      and head: "exists (path_join base j) w'"
      by (auto simp add: print_def exists_def)
    moreover have "\<forall>(t, j)\<in>set (job # jobs). exists (path_join base t) w \<longrightarrow> exists (path_join base j) w'"
    proof -
      have later: "exists (path_join base b) w'"
        if "(a, b) \<in> set jobs" and "exists (path_join base a) w" for a b
      proof -
        from that(2) f1 have "exists (path_join base a) ?w2"
          by (auto simp add: exists_def print_def)
        with o that(1) show ?thesis by auto
      qed
      from head later show ?thesis by (auto simp add: job)
    qed
    ultimately show ?thesis using f by blast
  qed
qed

section \<open>The claims\<close>

subsection \<open>C1: the format of the destination file\<close>

text \<open>
  Claim C1. For every non-empty list of entries the converter writes the destination
  file as an opening bracket and a line feed; each entry as an object on one line,
  indented by two spaces, the key \<open>w\<close> with the word before the key \<open>f\<close> with the
  frequency, no space after the colon or the comma, characters outside ASCII copied and
  not escaped; a comma at the end of every entry line but the last; and the closing
  bracket after the last entry, with no line feed after it. The bytes of the file are
  the UTF-8 encoding of that text.
\<close>

theorem write_entries_format:
  assumes "wfs \<noteq> []" and "write_faults w json_file = None"
  shows "\<exists>w'. write_entries json_file (map (\<lambda>(word, n). mk_entry word n) wfs) w = Returned w' \<and>
           files w' json_file =
             Some ([91, 10] @
                   concat (map (\<lambda>(word, n). ascii ''  '' @ spec_object word n @ [44, 10])
                     (butlast wfs)) @
                   (case last wfs of (word, n) \<Rightarrow> ascii ''  '' @ spec_object word n @ [10]) @
                   [93]) \<and>
           file_bytes w' json_file = Some (utf8_encode (spec_text wfs)) \<and>
           (\<forall>(word, n)\<in>set wfs. 10 \<notin> set (spec_object word n) \<and> 13 \<notin> set (spec_object word n)) \<and>
           (\<forall>c. 128 \<le> c \<longrightarrow> escape_char c = [c])"
proof -
  from write_entries_ok [OF assms(2), of "map (\<lambda>(word, n). mk_entry word n) wfs"]
  obtain w' where r: "write_entries json_file (map (\<lambda>(word, n). mk_entry word n) wfs) w = Returned w'"
    and f: "files w' = (files w)(json_file \<mapsto> spec_text wfs)"
    by (auto simp add: write_calls_spec_text)
  have lit: "\<forall>c. 128 \<le> c \<longrightarrow> escape_char c = [c]" by (simp add: escape_char_literal)
  have one: "\<forall>(word, n)\<in>set wfs. 10 \<notin> set (spec_object word n) \<and> 13 \<notin> set (spec_object word n)"
    using spec_object_one_line by auto
  from assms(1) f have "files w' json_file =
             Some ([91, 10] @
                   concat (map (\<lambda>(word, n). ascii ''  '' @ spec_object word n @ [44, 10])
                     (butlast wfs)) @
                   (case last wfs of (word, n) \<Rightarrow> ascii ''  '' @ spec_object word n @ [10]) @
                   [93])"
    by (simp add: spec_text_def)
  moreover from f have "file_bytes w' json_file = Some (utf8_encode (spec_text wfs))"
    by (simp add: file_bytes_def)
  ultimately show ?thesis using r lit one by blast
qed

text \<open>The two entries \<open>le 100\<close> and \<open>la 90\<close> of the specification's example.\<close>

theorem write_entries_format_witness:
  "\<exists>w'. write_entries (ascii ''out.json'')
          [mk_entry (ascii ''le'') 100, mk_entry (ascii ''la'') 90] empty_world = Returned w' \<and>
        files w' (ascii ''out.json'') = Some le_la_json \<and>
        file_bytes w' (ascii ''out.json'') = Some le_la_json"
proof -
  have "utf8_encode le_la_json = le_la_json"
    by (rule utf8_encode_ascii) (simp add: le_la_json_def ascii_def)
  moreover have "spec_text [(ascii ''le'', 100), (ascii ''la'', 90)] = le_la_json"
    by (simp add: spec_eval le_la_json_def ascii_def)
  ultimately show ?thesis
    using write_entries_format
      [of "[(ascii ''le'', 100), (ascii ''la'', 90)]" empty_world "ascii ''out.json''"]
    by (simp add: empty_world_def spec_eval le_la_json_def ascii_def)
qed

subsection \<open>C2: a destination that cannot be written\<close>

text \<open>
  Claim C2 says that the error of a failed write aborts its job only and that every later
  job still runs. The runner has no handler: with the English and the French sources in
  place and the English destination refused, \<open>main\<close> ends with the error after two
  messages, and the French destination is never made.
\<close>

theorem write_failure_counterexample:
  \<open>main denied_world =
     Raised (PermissionError (ascii ''app/src/main/assets/common/dictionaries/en_base.json''))
       (denied_world
          \<lparr>stdout :=
             [ascii ''Reading app/src/main/assets/common/dictionaries/en_50k.txt...'',
              ascii ''Writing app/src/main/assets/common/dictionaries/en_base.json with 1 entries...'']\<rparr>) \<and>
   exists (ascii ''app/src/main/assets/common/dictionaries/fr_50k.txt'') denied_world \<and>
   \<not> exists (ascii ''app/src/main/assets/common/dictionaries/fr_base.json'')
         (world_of (main denied_world))\<close>
  by (simp add: main_def base_dir_def conversions_def denied_world_def run_eval text_eval int_eval)

text \<open>
  Claim C2, amended. If writing the destination of a job fails, the error leaves the
  converter and the runner: the run ends with the outcome of that job, whatever jobs
  follow it, and no file but that destination differs from before the job.
\<close>

theorem write_failure_ends_run:
  assumes "main_loop base pre w = Returned w1"
    and "files w1 (path_join base txt_file) = Some content"
    and "write_faults w1 (path_join base json_file) = Some fault"
  shows "\<exists>e w2. convert_txt_to_json (path_join base txt_file) (path_join base json_file) w1 =
                  Raised e w2 \<and>
                main_loop base (pre @ (txt_file, json_file) # rest) w = Raised e w2 \<and>
                (\<forall>p. p \<noteq> path_join base json_file \<longrightarrow> files w2 p = files w1 p)"
proof -
  from convert_write_fault [OF assms(2,3)] obtain e w2 where
    c: "convert_txt_to_json (path_join base txt_file) (path_join base json_file) w1 = Raised e w2"
    and f: "\<forall>p. p \<noteq> path_join base json_file \<longrightarrow> files w2 p = files w1 p" by blast
  from assms(2) have "exists (path_join base txt_file) w1" by (simp add: exists_def)
  from main_loop_raise [OF this c] assms(1)
  have "main_loop base (pre @ (txt_file, json_file) # rest) w = Raised e w2"
    by (simp add: main_loop_append)
  with c f show ?thesis by blast
qed

theorem write_failure_ends_run_witness:
  \<open>\<exists>e w2. main denied_world = Raised e w2 \<and>
     files w2 (ascii ''app/src/main/assets/common/dictionaries/fr_base.json'') = None\<close>
proof -
  have p: "main_loop base_dir [] denied_world = Returned denied_world" by simp
  have f: "files denied_world (path_join base_dir (ascii ''en_50k.txt'')) =
           Some (ascii ''the 100'' @ [10])"
    by (simp add: denied_world_def base_dir_def path_join_def ascii_def)
  have g: "write_faults denied_world (path_join base_dir (ascii ''en_base.json'')) =
           Some OpenDenied"
    by (simp add: denied_world_def)
  have n: "files denied_world (ascii ''app/src/main/assets/common/dictionaries/fr_base.json'') = None"
    by (simp add: denied_world_def base_dir_def path_join_def ascii_def)
  have d: "ascii ''app/src/main/assets/common/dictionaries/fr_base.json'' \<noteq>
           path_join base_dir (ascii ''en_base.json'')"
    by (simp add: base_dir_def path_join_def ascii_def)
  from write_failure_ends_run [OF p f g, of "tl conversions"] n d show ?thesis
    by (auto simp add: main_def conversions_def)
qed

subsection \<open>C3: a line with a word and a frequency\<close>



subsection \<open>C4: the valid lines, in order\<close>

text \<open>
  Claim C4. The converter returns, and the destination holds the array of the entries of
  the valid lines of the source, one for each valid line and in the order of the lines:
  a word that occurs twice gives two entries, and a blank or rejected line between two
  valid lines changes nothing.
\<close>

theorem conversion_keeps_valid_lines_in_order:
  assumes "files w txt_file = Some content" and "write_faults w json_file = None"
  shows "\<exists>w'. convert_txt_to_json txt_file json_file w = Returned w' \<and>
           files w' json_file = Some (spec_text (spec_entries (readlines content))) \<and>
           spec_entries (readlines content) =
             map (\<lambda>l. the (spec_parse_line l))
               (filter (\<lambda>l. spec_parse_line l \<noteq> None) (readlines content)) \<and>
           length (spec_entries (readlines content)) =
             length (filter (\<lambda>l. spec_parse_line l \<noteq> None) (readlines content))"
proof -
  from convert_ok [OF assms] obtain w' where
    "convert_txt_to_json txt_file json_file w = Returned w'"
    "files w' = (files w)(json_file \<mapsto> spec_text (spec_entries (readlines content)))"
    by blast
  then show ?thesis
    by (simp add: spec_entries_def List.map_filter_def comp_def)
qed

text \<open>
  The example source has a blank line, a line of one token, the word \<open>le\<close> twice, a
  frequency that is no number, and two spaces inside \<open>New  York\<close>.
\<close>

theorem conversion_keeps_valid_lines_in_order_witness:
  "\<exists>w'. convert_txt_to_json (ascii ''in.txt'') (ascii ''out.json'') example_world = Returned w' \<and>
        files w' (ascii ''out.json'') = Some example_json \<and>
        spec_entries (readlines example_txt) =
          [(ascii ''le'', 100), (ascii ''le'', 100), (ascii ''New York'', 1234), (ascii ''la'', 90)]"
proof -
  have e: "spec_entries (readlines example_txt) =
          [(ascii ''le'', 100), (ascii ''le'', 100), (ascii ''New York'', 1234), (ascii ''la'', 90)]"
    by (simp add: example_txt_def readlines_def spec_entries_def spec_parse_line_def
        text_eval int_eval)
  have t: "spec_text [(ascii ''le'', 100), (ascii ''le'', 100), (ascii ''New York'', 1234),
             (ascii ''la'', 90)] = example_json"
    by (simp add: spec_eval example_json_def ascii_def)
  have f: "files example_world (ascii ''in.txt'') = Some example_txt"
    by (simp add: example_world_def)
  have g: "write_faults example_world (ascii ''out.json'') = None"
    by (simp add: example_world_def)
  from conversion_keeps_valid_lines_in_order [OF f g] e t show ?thesis
    by auto
qed

subsection \<open>C5: no valid line\<close>

text \<open>
  Claim C5. When no line of the source is valid (an empty file, or blank and rejected
  lines only) the destination holds the three bytes of the opening bracket, the line
  feed and the closing bracket.
\<close>

theorem no_valid_line_gives_empty_array:
  assumes "files w txt_file = Some content" and "write_faults w json_file = None"
    and "\<forall>l\<in>set (readlines content). spec_parse_line l = None"
  shows "\<exists>w'. convert_txt_to_json txt_file json_file w = Returned w' \<and>
           files w' json_file = Some [91, 10, 93] \<and>
           file_bytes w' json_file = Some [0x5B, 0x0A, 0x5D]"
proof -
  from assms(3) have e: "spec_entries (readlines content) = []"
    by (simp add: spec_entries_def map_filter_all_None)
  from convert_ok [OF assms(1,2)] obtain w' where
    "convert_txt_to_json txt_file json_file w = Returned w'"
    "files w' = (files w)(json_file \<mapsto> spec_text (spec_entries (readlines content)))"
    by blast
  with e show ?thesis
    by (simp add: spec_text_def file_bytes_def utf8_encode_def utf8_char_def)
qed

theorem no_valid_line_gives_empty_array_witness:
  "\<exists>w'. convert_txt_to_json (ascii ''in.txt'') (ascii ''out.json'') rejected_world = Returned w' \<and>
        files w' (ascii ''out.json'') = Some [91, 10, 93] \<and>
        file_bytes w' (ascii ''out.json'') = Some [0x5B, 0x0A, 0x5D]"
proof -
  have f: "files rejected_world (ascii ''in.txt'') = Some rejected_txt"
    by (simp add: rejected_world_def)
  have g: "write_faults rejected_world (ascii ''out.json'') = None"
    by (simp add: rejected_world_def)
  have h: "\<forall>l\<in>set (readlines rejected_txt). spec_parse_line l = None"
    by (simp add: rejected_txt_def readlines_def spec_parse_line_def text_eval int_eval)
  from no_valid_line_gives_empty_array [OF f g h] show ?thesis .
qed

subsection \<open>C6: a line of one token\<close>

text \<open>
  Claim C6 says that the warning for a line of fewer than two tokens identifies the raw
  content of the line. The program strips the line before it prints it: the line
  \<open>solo\<close> with two spaces before and one after prints the same warning as the line
  \<open>solo\<close> alone, and not the warning with the raw line.
\<close>

theorem short_line_raw_content_counterexample:
  "process_line 1 (ascii ''  solo '' @ [10]) ([], empty_world) =
     ([], empty_world\<lparr>stdout := [ascii ''Warning: Line 1 has invalid format: solo'']\<rparr>) \<and>
   process_line 1 (ascii ''solo'' @ [10]) ([], empty_world) =
     ([], empty_world\<lparr>stdout := [ascii ''Warning: Line 1 has invalid format: solo'']\<rparr>) \<and>
   ascii ''  solo '' @ [10] \<noteq> ascii ''solo'' @ [10] \<and>
   warn_format 1 (ascii ''  solo '' @ [10]) \<noteq> ascii ''Warning: Line 1 has invalid format: solo''"
  by (simp add: process_line_def text_eval print_def warn_format_def str_nat.simps
      empty_world_def)

text \<open>
  Claim C6, amended. A line that is not blank and splits into fewer than two tokens is
  rejected with a warning that gives its number, counted from 1, and the stripped line,
  which is its only token; no entry is made for it, and the loop goes on with the next
  line.
\<close>

theorem short_line_warned_and_skipped:
  assumes "strip raw \<noteq> []" and "length (split (strip raw)) < 2"
  shows "read_loop (pre @ raw # post) (entries, w) =
           read_loop_from (length pre + 2) post
             (case read_loop pre (entries, w) of
                (es, w1) \<Rightarrow> (es, print (warn_format (length pre + 1) (strip raw)) w1)) \<and>
         split (strip raw) = [strip raw] \<and>
         spec_parse_line raw = None"
proof -
  obtain es w1 where r: "read_loop pre (entries, w) = (es, w1)"
    by (cases "read_loop pre (entries, w)")
  from assms split_single_token [OF assms] show ?thesis
    by (simp add: read_loop_at r process_line_malformed spec_parse_line_short)
qed

theorem short_line_warned_and_skipped_witness:
  "read_loop [ascii ''le 100'' @ [10], ascii ''  solo '' @ [10], ascii ''la 90'' @ [10]]
     ([], empty_world) =
   ([mk_entry (ascii ''le'') 100, mk_entry (ascii ''la'') 90],
    empty_world\<lparr>stdout := [ascii ''Warning: Line 2 has invalid format: solo'']\<rparr>)"
  using short_line_warned_and_skipped
    [of "ascii ''  solo '' @ [10]" "[ascii ''le 100'' @ [10]]" "[ascii ''la 90'' @ [10]]"
        "[]" empty_world]
  by (simp add: read_loop_def process_line_def text_eval int_eval print_def
      warn_format_def str_nat.simps empty_world_def)

subsection \<open>C7: a frequency that is no integer\<close>

text \<open>
  Claim C7. A line of at least two tokens whose last token does not read as an integer
  is rejected with a warning that gives the number of the line and that token; no entry
  is made for it (the line \<open>word abc\<close> gives none), and the loop goes on with the next
  line.
\<close>

theorem bad_frequency_warned_and_skipped:
  assumes "parts = split (strip raw)" and "2 \<le> length parts"
    and "py_int (last parts) = None"
  shows "read_loop (pre @ raw # post) (entries, w) =
           read_loop_from (length pre + 2) post
             (case read_loop pre (entries, w) of
                (es, w1) \<Rightarrow> (es, print (warn_frequency (length pre + 1) (last parts)) w1)) \<and>
         spec_parse_line raw = None"
proof -
  obtain es w1 where r: "read_loop pre (entries, w) = (es, w1)"
    by (cases "read_loop pre (entries, w)")
  from assms show ?thesis
    by (simp add: read_loop_at r process_line_bad_frequency spec_parse_line_long)
qed

theorem bad_frequency_warned_and_skipped_witness:
  "read_loop [ascii ''le 100'' @ [10], ascii ''word abc'' @ [10], ascii ''la 90'' @ [10]]
     ([], empty_world) =
   ([mk_entry (ascii ''le'') 100, mk_entry (ascii ''la'') 90],
    empty_world\<lparr>stdout := [ascii ''Warning: Line 2 has invalid frequency: abc'']\<rparr>)"
  using bad_frequency_warned_and_skipped
    [of "[ascii ''word'', ascii ''abc'']" "ascii ''word abc'' @ [10]"
        "[ascii ''le 100'' @ [10]]" "[ascii ''la 90'' @ [10]]" "[]" empty_world]
  by (simp add: read_loop_def process_line_def text_eval int_eval print_def
      warn_frequency_def str_nat.simps empty_world_def)

subsection \<open>C8: a source that does not exist\<close>

text \<open>
  Claim C8. When the runner comes to a job whose source does not exist, it prints an
  error with the path, leaves every file as it is, and goes on: the jobs after it are
  run as the loop runs them from that world. Where no write can fail the run returns,
  and every later job whose source exists has its destination at the end.
\<close>

theorem missing_source_skipped:
  assumes "main_loop base pre w = Returned w1"
    and "\<not> exists (path_join base txt_file) w1"
  shows "main_loop base (pre @ (txt_file, json_file) # rest) w =
           main_loop base rest
             (print (ascii ''Error: '' @ path_join base txt_file @ ascii '' not found!'') w1) \<and>
         files (print (ascii ''Error: '' @ path_join base txt_file @ ascii '' not found!'') w1) =
           files w1 \<and>
         (write_faults w1 = Map.empty \<longrightarrow>
            (\<exists>w'. main_loop base (pre @ (txt_file, json_file) # rest) w = Returned w' \<and>
                  (\<forall>(t, j)\<in>set rest.
                     exists (path_join base t) w1 \<longrightarrow> exists (path_join base j) w')))"
proof -
  let ?w2 = "print (ascii ''Error: '' @ path_join base txt_file @ ascii '' not found!'') w1"
  from assms have run: "main_loop base (pre @ (txt_file, json_file) # rest) w =
      main_loop base rest ?w2"
    by (simp add: main_loop_append main_loop_missing)
  have same: "files ?w2 = files w1" by (simp add: print_def)
  have "\<exists>w'. main_loop base (pre @ (txt_file, json_file) # rest) w = Returned w' \<and>
          (\<forall>(t, j)\<in>set rest. exists (path_join base t) w1 \<longrightarrow> exists (path_join base j) w')"
    if "write_faults w1 = Map.empty"
  proof -
    from that have "write_faults ?w2 = Map.empty" by (simp add: print_def)
    from main_loop_outputs [OF this, of base rest] obtain w' where
      r: "main_loop base rest ?w2 = Returned w'"
      and o: "\<forall>(t, j)\<in>set rest. exists (path_join base t) ?w2 \<longrightarrow> exists (path_join base j) w'"
      by blast
    from o have "\<forall>(t, j)\<in>set rest. exists (path_join base t) w1 \<longrightarrow> exists (path_join base j) w'"
      by (simp add: exists_def print_def)
    with r run show ?thesis by simp
  qed
  with run same show ?thesis by blast
qed

text \<open>Of two jobs in the directory \<open>d\<close> the first has no source: the second is converted.\<close>

theorem missing_source_skipped_witness:
  \<open>main_loop (ascii ''d'') two_jobs second_only_world =
     Returned (second_only_world
       \<lparr>files := (files second_only_world)(ascii ''d/b.json'' \<mapsto> le_la_json),
        stdout := [ascii ''Error: d/a.txt not found!'',
                   ascii ''Reading d/b.txt...'',
                   ascii ''Writing d/b.json with 2 entries...'',
                   ascii ''Conversion complete: 2 entries written to d/b.json'',
                   []]\<rparr>) \<and>
   files second_only_world (ascii ''d/a.json'') = None\<close>
proof -
  have p: "main_loop (ascii ''d'') [] second_only_world = Returned second_only_world"
    by simp
  have m: "\<not> exists (path_join (ascii ''d'') (ascii ''a.txt'')) second_only_world"
    by (simp add: exists_def path_join_def second_only_world_def ascii_def)
  from missing_source_skipped [OF p m, of "ascii ''a.json''" "[(ascii ''b.txt'', ascii ''b.json'')]"]
  show ?thesis
    by (simp add: two_jobs_def second_only_world_def le_la_json_def run_eval text_eval int_eval)
qed

subsection \<open>C9: a negative frequency\<close>



subsection \<open>C10: what \<open>int\<close> accepts beyond plain literals\<close>

text \<open>
  Claim C10. The frequency is read by \<open>int\<close>, which accepts more than the plain base-10
  literals: a line whose last token has a plus sign, an underscore between digits
  (\<open>1_000\<close> is 1000) or digits outside ASCII (here the Arabic-Indic one and two) gives
  an entry and no warning.
\<close>

theorem int_accepts_more_than_plain_literals:
  "process_line line_num (ascii ''word +5'') (entries, w) =
     (entries @ [mk_entry (ascii ''word'') 5], w) \<and>
   plain_base10 (ascii ''+5'') = False \<and>
   process_line line_num (ascii ''word 1_000'') (entries, w) =
     (entries @ [mk_entry (ascii ''word'') 1000], w) \<and>
   plain_base10 (ascii ''1_000'') = False \<and>
   process_line line_num (ascii ''word '' @ [0x661, 0x662]) (entries, w) =
     (entries @ [mk_entry (ascii ''word'') 12], w) \<and>
   plain_base10 [0x661, 0x662] = False \<and>
   plain_base10 (ascii ''1000'') = True"
  by (simp add: process_line_def text_eval int_eval todecimal_arabic_indic plain_base10_def)

theorem int_accepts_more_than_plain_literals_witness:
  "process_line 1 (ascii ''word +5'') ([], empty_world) =
     ([mk_entry (ascii ''word'') 5], empty_world) \<and>
   process_line 1 (ascii ''word 1_000'') ([], empty_world) =
     ([mk_entry (ascii ''word'') 1000], empty_world) \<and>
   process_line 1 (ascii ''word '' @ [0x661, 0x662]) ([], empty_world) =
     ([mk_entry (ascii ''word'') 12], empty_world)"
  using int_accepts_more_than_plain_literals [of 1 "[]" empty_world] by simp

end
